theory Spec2Isabelle
  imports Complex_Main
begin

section \<open>Tensors and errors\<close>

text \<open>
  The script \<^verbatim>\<open>examples/explain_mnist.py\<close> works on batches of images, tensors of
  shape \<open>N \<times> C \<times> H \<times> W\<close> (the \<^verbatim>\<open>view(-1, 1, 1, 1)\<close> of the normalisation fixes the
  four dimensions). A batch is a list of samples, a sample a list of channels, a channel
  a list of rows. Floating-point numbers are modelled as reals: there is no rounding, no
  infinity and no NaN in this development.
\<close>

type_synonym image = "real list list list"
type_synonym batch = "image list"

datatype error =
    RuntimeError
  | IndexError
  | FileNotFoundError
  | UnpicklingError

text \<open>Running a list of fallible steps: the first error is the result, as the first
  exception raised would be.\<close>

fun collect :: "(error + 'a) list \<Rightarrow> error + 'a list" where
  "collect [] = Inr []"
| "collect (Inl e # rs) = Inl e"
| "collect (Inr v # rs) = (case collect rs of Inl e \<Rightarrow> Inl e | Inr vs \<Rightarrow> Inr (v # vs))"

text \<open>\<^verbatim>\<open>a.view(a.size(0), -1)\<close> lays the elements of one sample out in a row.\<close>

definition flatten_sample :: "image \<Rightarrow> real list" where
  "flatten_sample s = concat (concat s)"

definition values_of :: "batch \<Rightarrow> real list" where
  "values_of a = concat (map flatten_sample a)"

text \<open>The shape of a batch: the lengths at every level.\<close>

definition shape_of :: "batch \<Rightarrow> nat list list list" where
  "shape_of a = map (map (map length)) a"

text \<open>\<^verbatim>\<open>.max(1)[0]\<close> over one row; torch refuses to reduce a dimension of size zero.\<close>

fun row_max :: "real list \<Rightarrow> error + real" where
  "row_max [] = Inl RuntimeError"
| "row_max (x # xs) = Inr (fold max xs x)"

section \<open>Normalisation for plotting\<close>

text \<open>
  \<^verbatim>\<open>a /= torch.abs(a).view(a.size(0), -1).max(1)[0].view(-1, 1, 1, 1) + 1e-6\<close>

  The divisor of a sample is the largest absolute value among its elements plus \<open>1e-6\<close>.
\<close>

definition denominator :: "image \<Rightarrow> error + real" where
  "denominator s =
     (case row_max (map abs (flatten_sample s)) of
        Inl e \<Rightarrow> Inl e
      | Inr m \<Rightarrow> Inr (m + 1 / 1000000))"

definition scale_sample :: "(real \<Rightarrow> real) \<Rightarrow> image \<Rightarrow> image" where
  "scale_sample f s = map (map (map f)) s"

definition divide_sample :: "image \<Rightarrow> error + image" where
  "divide_sample s =
     (case denominator s of
        Inl e \<Rightarrow> Inl e
      | Inr d \<Rightarrow> Inr (scale_sample (\<lambda>v. v / d) s))"

text \<open>
  Line 31 updates its argument in place, line 32 binds a new tensor:
  \<^verbatim>\<open>a = (a+1) / 2\<close>.
  \<open>normalize_batch\<close> returns both: the argument as the in-place division leaves it, and the
  new tensor that goes on to the image grid and the colour map. A batch of no samples
  cannot be viewed as \<open>(0, -1)\<close>.
\<close>

definition normalize_batch :: "batch \<Rightarrow> error + batch \<times> batch" where
  "normalize_batch a =
     (if a = [] then Inl RuntimeError
      else case collect (map divide_sample a) of
             Inl e \<Rightarrow> Inl e
           | Inr a' \<Rightarrow> Inr (a', map (scale_sample (\<lambda>v. (v + 1) / 2)) a'))"

text \<open>
  \<^verbatim>\<open>prepare_batch_for_plotting(a, nrow=4, cmap='seismic')\<close>: the grid and the colour map
  are torchvision's and matplotlib's; \<open>render\<close> stands for them.
\<close>

definition prepare_batch_for_plotting ::
  "(batch \<Rightarrow> 'img) \<Rightarrow> batch \<Rightarrow> error + batch \<times> 'img" where
  "prepare_batch_for_plotting render a =
     (case normalize_batch a of
        Inl e \<Rightarrow> Inl e
      | Inr (a', b) \<Rightarrow> Inr (a', render b))"

section \<open>Selecting the target neuron\<close>

text \<open>
  The output of the model for a batch: one row of class scores per sample.
\<close>

type_synonym scores = "real list list"

text \<open>
  \<^verbatim>\<open>y_hat.max(1)[1]\<close>: for every row the index of its largest value, the first one
  where several are equal. A row of no values cannot be reduced.
\<close>

fun argmax :: "real list \<Rightarrow> nat" where
  "argmax [] = 0"
| "argmax (x # xs) =
     (case row_max xs of
        Inl e \<Rightarrow> 0
      | Inr m \<Rightarrow> if m \<le> x then 0 else Suc (argmax xs))"

definition max_indices :: "scores \<Rightarrow> error + nat list" where
  "max_indices y =
     collect (map (\<lambda>r. if r = [] then Inl IndexError else Inr (argmax r)) y)"

text \<open>
  \<^verbatim>\<open>y_hat[torch.arange(x.shape[0]), y_hat.max(1)[1]]\<close>: the two index tensors are
  broadcast against each other, and every pair \<open>(i, j)\<close> reads \<open>y_hat[i][j]\<close>.
\<close>

definition index_pairs :: "nat \<Rightarrow> nat list \<Rightarrow> error + (nat \<times> nat) list" where
  "index_pairs n idx =
     (if length idx = n then Inr (zip [0..<n] idx)
      else if n = 1 then Inr (map (\<lambda>j. (0, j)) idx)
      else if length idx = 1 then Inr (map (\<lambda>i. (i, hd idx)) [0..<n])
      else Inl IndexError)"

definition read_at :: "scores \<Rightarrow> nat \<times> nat \<Rightarrow> error + real" where
  "read_at y p =
     (case p of (i, j) \<Rightarrow>
        if i < length y \<and> j < length (y ! i) then Inr (y ! i ! j) else Inl IndexError)"

definition select_argmax :: "nat \<Rightarrow> scores \<Rightarrow> error + (nat \<times> nat) list \<times> real list" where
  "select_argmax n y =
     (case max_indices y of
        Inl e \<Rightarrow> Inl e
      | Inr idx \<Rightarrow>
          (case index_pairs n idx of
             Inl e \<Rightarrow> Inl e
           | Inr ps \<Rightarrow>
               (case collect (map (read_at y) ps) of
                  Inl e \<Rightarrow> Inl e
                | Inr vs \<Rightarrow> Inr (ps, vs))))"

text \<open>
  \<^verbatim>\<open>y_hat = y_hat.sum()\<close> and \<^verbatim>\<open>y_hat.backward()\<close>: the backward pass starts from the
  sum of the selected scores. Its derivative with respect to the scores is what enters
  the network from the output side: every selected position counts once for each time
  it was read, every other position is zero.
\<close>

definition seed :: "scores \<Rightarrow> (nat \<times> nat) list \<Rightarrow> scores" where
  "seed y ps =
     map (\<lambda>i. map (\<lambda>j. real (count_list ps (i, j))) [0..<length (y ! i)]) [0..<length y]"

section \<open>One attribution run\<close>

text \<open>
  The network, its explaining forward pass and the backward functions of the rules live
  in the package \<^verbatim>\<open>lrp\<close>, which the script imports. They are parameters here:
  \<open>forward\<close> is \<^verbatim>\<open>model.forward(x, explain=True, rule=rule, pattern=pattern)\<close>, and
  \<open>input_gradient\<close> is what the backward pass of that forward call hands to the input
  for a given derivative at the output. Both are functions of the rule, the pattern and
  the input only, and both may raise.
\<close>

record 'p model =
  forward :: "string \<Rightarrow> 'p option \<Rightarrow> batch \<Rightarrow> error + scores"
  input_gradient :: "string \<Rightarrow> 'p option \<Rightarrow> batch \<Rightarrow> scores \<Rightarrow> error + batch"

text \<open>The input tensor \<open>x\<close> of \<^verbatim>\<open>main\<close> and its attribute \<^verbatim>\<open>x.grad\<close>.\<close>

record input_tensor =
  x_data :: batch
  x_grad :: "batch option"

text \<open>
  \<^verbatim>\<open>y_hat.backward()\<close>: the autograd engine stores a gradient for a leaf tensor only in
  the shape of the tensor, and adds it to the gradient that is already there. (A gradient
  of a larger shape that broadcasting could have produced is summed down to the shape of
  the tensor by the engine; the model refuses every other shape.)
\<close>

definition add_batch :: "batch \<Rightarrow> batch \<Rightarrow> batch" where
  "add_batch a b = map2 (map2 (map2 (map2 (+)))) a b"

definition accumulate_grad :: "input_tensor \<Rightarrow> batch \<Rightarrow> error + batch" where
  "accumulate_grad x g =
     (if shape_of g \<noteq> shape_of (x_data x) then Inl RuntimeError
      else Inr (case x_grad x of None \<Rightarrow> g | Some old \<Rightarrow> add_batch old g))"

definition backward :: "'p model \<Rightarrow> string \<Rightarrow> 'p option \<Rightarrow> scores \<Rightarrow> input_tensor \<Rightarrow> error + batch" where
  "backward m r p sd x =
     (case input_gradient m r p (x_data x) sd of
        Inl e \<Rightarrow> Inl e
      | Inr g \<Rightarrow> accumulate_grad x g)"

text \<open>\<^verbatim>\<open>lambda attribution: attribution * x\<close>, the one postprocessing the script uses.\<close>

definition times_input :: "batch \<Rightarrow> batch \<Rightarrow> batch" where
  "times_input x a = map2 (map2 (map2 (map2 (*)))) a x"

record 'p rule_args =
  rule :: string
  title :: "string option"
  postprocess :: "(batch \<Rightarrow> batch) option"
  pattern :: "'p option"
  cmap :: string

record 'img plotted =
  attribution :: batch
  picture :: 'img
  caption :: string

text \<open>
  \<^verbatim>\<open>run_and_plot_rule(rule, ax_, title=None, postprocess=None, pattern=None, cmap='seismic')\<close>.
  The result is the outcome of the call together with the input tensor as the call
  leaves it: an exception keeps the changes made before it was raised.
  Without a postprocessing step \<^verbatim>\<open>attr\<close> is the very tensor \<^verbatim>\<open>x.grad\<close>, so the in-place
  division of the normalisation changes \<^verbatim>\<open>x.grad\<close> too. \<open>attribution\<close> is \<^verbatim>\<open>attr\<close> as it
  is handed to \<^verbatim>\<open>prepare_batch_for_plotting\<close>.
\<close>

definition run_and_plot_rule ::
  "'p model \<Rightarrow> (string \<Rightarrow> batch \<Rightarrow> 'img) \<Rightarrow> 'p rule_args \<Rightarrow> input_tensor
     \<Rightarrow> (error + 'img plotted) \<times> input_tensor" where
  "run_and_plot_rule m render args x =
     (let x1 = x\<lparr>x_grad := None\<rparr> in
      case forward m (rule args) (pattern args) (x_data x1) of
        Inl e \<Rightarrow> (Inl e, x1)
      | Inr y_hat \<Rightarrow>
          (case select_argmax (length (x_data x1)) y_hat of
             Inl e \<Rightarrow> (Inl e, x1)
           | Inr (ps, selected) \<Rightarrow>
               (case backward m (rule args) (pattern args) (seed y_hat ps) x1 of
                  Inl e \<Rightarrow> (Inl e, x1)
                | Inr g \<Rightarrow>
                    (let x2 = x1\<lparr>x_grad := Some g\<rparr>;
                         attr = (case postprocess args of None \<Rightarrow> g | Some f \<Rightarrow> f g)
                     in case prepare_batch_for_plotting (render (cmap args)) attr of
                          Inl e \<Rightarrow> (Inl e, x2)
                        | Inr (a', img) \<Rightarrow>
                            (Inr \<lparr>attribution = attr, picture = img,
                                  caption = (case title args of None \<Rightarrow> rule args | Some t \<Rightarrow> t)\<rparr>,
                             (case postprocess args of
                                None \<Rightarrow> x2\<lparr>x_grad := Some a'\<rparr>
                              | Some f \<Rightarrow> x2))))))"

text \<open>
  The calls of \<^verbatim>\<open>main\<close> one after the other on the same input tensor; the first
  exception ends the program.
\<close>

fun run_rules ::
  "'p model \<Rightarrow> (string \<Rightarrow> batch \<Rightarrow> 'img) \<Rightarrow> 'p rule_args list \<Rightarrow> input_tensor
     \<Rightarrow> (error + 'img plotted list) \<times> input_tensor" where
  "run_rules m render [] x = (Inr [], x)"
| "run_rules m render (args # rest) x =
     (case run_and_plot_rule m render args x of
        (Inl e, x') \<Rightarrow> (Inl e, x')
      | (Inr out, x') \<Rightarrow>
          (case run_rules m render rest x' of
             (Inl e, x'') \<Rightarrow> (Inl e, x'')
           | (Inr outs, x'') \<Rightarrow> (Inr (out # outs), x'')))"

section \<open>Fitting or loading the patterns\<close>

text \<open>
  The part of \<^verbatim>\<open>main\<close> that provides the patterns. The file system maps a path to what
  is stored there; a path that exists holds a pickled object or something that cannot be
  unpickled (a directory, other bytes). The world also records every call of a fitter,
  with the model it was given.
\<close>

datatype 'p file_content = Pickled 'p | Unreadable

record ('m, 'p) world =
  files :: "string \<Rightarrow> 'p file_content option"
  fit_calls :: "(string \<times> 'm) list"

text \<open>\<^verbatim>\<open>store_patterns(file_name, patterns)\<close> and \<^verbatim>\<open>load_patterns(file_name)\<close>.\<close>

definition store_patterns :: "string \<Rightarrow> 'p \<Rightarrow> ('m, 'p) world \<Rightarrow> ('m, 'p) world" where
  "store_patterns file_name patterns w = w\<lparr>files := (files w)(file_name \<mapsto> Pickled patterns)\<rparr>"

definition load_patterns :: "string \<Rightarrow> ('m, 'p) world \<Rightarrow> error + 'p" where
  "load_patterns file_name w =
     (case files w file_name of
        None \<Rightarrow> Inl FileNotFoundError
      | Some Unreadable \<Rightarrow> Inl UnpicklingError
      | Some (Pickled p) \<Rightarrow> Inr p)"

text \<open>
  Lines 95 to 99, and again lines 102 to 106 with the other path and fitter:
  \<^verbatim>\<open>if not os.path.exists(path): patterns = fit(model, train_loader); store_patterns(path, patterns)\<close>
  \<^verbatim>\<open>else: patterns = load_patterns(path)\<close>.
  The fitters \<^verbatim>\<open>fit_patternnet\<close> and \<^verbatim>\<open>fit_patternnet_positive\<close> are imported from
  \<^verbatim>\<open>lrp.patterns\<close>; they are parameters here.
\<close>

definition patterns_for ::
  "string \<Rightarrow> string \<Rightarrow> ('m \<Rightarrow> 'l \<Rightarrow> error + 'p) \<Rightarrow> 'm \<Rightarrow> 'l \<Rightarrow> ('m, 'p) world
     \<Rightarrow> (error + 'p) \<times> ('m, 'p) world" where
  "patterns_for path name fitter model train_loader w =
     (if files w path = None then
        (let w1 = w\<lparr>fit_calls := fit_calls w @ [(name, model)]\<rparr> in
         case fitter model train_loader of
           Inl e \<Rightarrow> (Inl e, w1)
         | Inr patterns \<Rightarrow> (Inr patterns, store_patterns path patterns w1))
      else (load_patterns path w, w))"

record ('m, 'l, 'p) fitters =
  fit_patternnet :: "'m \<Rightarrow> 'l \<Rightarrow> error + 'p"
  fit_patternnet_positive :: "'m \<Rightarrow> 'l \<Rightarrow> error + 'p"

definition main_patterns ::
  "string \<Rightarrow> ('m, 'l, 'p) fitters \<Rightarrow> 'm \<Rightarrow> 'l \<Rightarrow> ('m, 'p) world
     \<Rightarrow> (error + 'p \<times> 'p) \<times> ('m, 'p) world" where
  "main_patterns base_path fs model train_loader w =
     (case patterns_for (base_path @ ''/examples/pattern_all.pkl'') ''fit_patternnet''
             (fit_patternnet fs) model train_loader w of
        (Inl e, w1) \<Rightarrow> (Inl e, w1)
      | (Inr patterns_all, w1) \<Rightarrow>
          (case patterns_for (base_path @ ''/examples/pattern_pos.pkl'') ''fit_patternnet_positive''
                  (fit_patternnet_positive fs) model train_loader w1 of
             (Inl e, w2) \<Rightarrow> (Inl e, w2)
           | (Inr patterns_pos, w2) \<Rightarrow> (Inr (patterns_all, patterns_pos), w2)))"

section \<open>Properties of the normalisation\<close>

lemma fold_max_ge_init: "(x::real) \<le> fold max xs x"
  by (induction xs arbitrary: x) (auto intro: order_trans [OF max.cobounded2])

lemma fold_max_ge_elem: "(y::real) \<in> set xs \<Longrightarrow> y \<le> fold max xs x"
proof (induction xs arbitrary: x)
  case Nil
  then show ?case by simp
next
  case (Cons z zs)
  show ?case
  proof (cases "y = z")
    case True
    have "z \<le> max z x" by simp
    also have "\<dots> \<le> fold max zs (max z x)" by (rule fold_max_ge_init)
    finally show ?thesis using True by simp
  next
    case False
    with Cons show ?thesis by simp
  qed
qed

lemma row_max_upper: "row_max xs = Inr m \<Longrightarrow> y \<in> set xs \<Longrightarrow> y \<le> m"
  by (cases xs) (auto simp: fold_max_ge_init fold_max_ge_elem)

lemma row_max_abs_nonneg: "row_max (map abs xs) = Inr m \<Longrightarrow> 0 \<le> m"
proof (cases xs)
  case Nil
  assume "row_max (map abs xs) = Inr m"
  with Nil show ?thesis by simp
next
  case (Cons x xs')
  assume "row_max (map abs xs) = Inr m"
  with Cons have "m = fold max (map abs xs') \<bar>x\<bar>" by simp
  moreover have "\<bar>x\<bar> \<le> fold max (map abs xs') \<bar>x\<bar>" by (rule fold_max_ge_init)
  ultimately show ?thesis by simp
qed

lemma denominator_pos: "denominator s = Inr d \<Longrightarrow> 0 < d"
  by (auto simp: denominator_def split: sum.splits dest: row_max_abs_nonneg)

lemma denominator_bounds:
  assumes "denominator s = Inr d" and "v \<in> set (flatten_sample s)"
  shows "\<bar>v\<bar> < d"
proof -
  from assms(1) obtain m where m: "row_max (map abs (flatten_sample s)) = Inr m"
    and d: "d = m + 1 / 1000000"
    by (auto simp: denominator_def split: sum.splits)
  from assms(2) have "\<bar>v\<bar> \<in> set (map abs (flatten_sample s))" by simp
  with m have "\<bar>v\<bar> \<le> m" by (rule row_max_upper)
  with d show ?thesis by simp
qed

lemma flatten_scale_sample:
  "flatten_sample (scale_sample f s) = map f (flatten_sample s)"
  by (simp add: flatten_sample_def scale_sample_def map_concat)

lemma collect_Inr_map: "collect rs = Inr vs \<Longrightarrow> rs = map Inr vs"
proof (induction rs arbitrary: vs)
  case Nil
  then show ?case by simp
next
  case (Cons r rs)
  show ?case
  proof (cases r)
    case (Inl e)
    with Cons.prems show ?thesis by simp
  next
    case (Inr v)
    with Cons.prems obtain ws where ws: "collect rs = Inr ws" and vs: "vs = v # ws"
      by (auto split: sum.splits)
    from Cons.IH [OF ws] vs Inr show ?thesis by simp
  qed
qed


lemma collect_map_Inr:
  assumes "collect (map f xs) = Inr ys"
  shows "length ys = length xs \<and> (\<forall>i < length xs. f (xs ! i) = Inr (ys ! i))"
proof -
  from assms have eq: "map f xs = map Inr ys" by (rule collect_Inr_map)
  then have len: "length ys = length xs" by (metis length_map)
  have "f (xs ! i) = Inr (ys ! i)" if "i < length xs" for i
  proof -
    have "map f xs ! i = map Inr ys ! i" using eq by simp
    with that len show ?thesis by simp
  qed
  with len show ?thesis by simp
qed

lemma divide_sample_total:
  "flatten_sample s \<noteq> [] \<Longrightarrow> \<exists>d. denominator s = Inr d \<and> divide_sample s = Inr (scale_sample (\<lambda>v. v / d) s)"
  by (cases "flatten_sample s") (simp_all add: denominator_def divide_sample_def)

lemma collect_total:
  "\<forall>x \<in> set xs. \<exists>y. f x = Inr y \<Longrightarrow> \<exists>ys. collect (map f xs) = Inr ys"
proof (induction xs)
  case Nil
  then show ?case by simp
next
  case (Cons x xs)
  then obtain y ys where "f x = Inr y" and "collect (map f xs) = Inr ys" by auto
  then show ?case by simp
qed

lemma normalize_total:
  assumes "a \<noteq> []" and "\<forall>s \<in> set a. flatten_sample s \<noteq> []"
  shows "\<exists>a' b. normalize_batch a = Inr (a', b)"
proof -
  have "\<forall>s \<in> set a. \<exists>y. divide_sample s = Inr y"
    using assms(2) divide_sample_total by blast
  then obtain a' where "collect (map divide_sample a) = Inr a'"
    using collect_total by blast
  with assms(1) show ?thesis by (simp add: normalize_batch_def)
qed

lemma unit_interval:
  fixes u d :: real
  assumes "\<bar>u\<bar> < d"
  shows "0 \<le> (u / d + 1) / 2 \<and> (u / d + 1) / 2 \<le> 1"
proof -
  from assms have d: "0 < d" by linarith
  from assms d have "- 1 < u / d" by (simp add: pos_less_divide_eq)
  moreover from assms d have "u / d < 1" by (simp add: pos_divide_less_eq)
  ultimately show ?thesis by simp
qed

lemma normalize_values:
  assumes "normalize_batch a = Inr (a', b)" and "v \<in> set (values_of b)"
  shows "\<exists>s \<in> set a. \<exists>d u. denominator s = Inr d \<and> u \<in> set (flatten_sample s) \<and> v = (u / d + 1) / 2"
proof -
  from assms(1) have c: "collect (map divide_sample a) = Inr a'"
    and b: "b = map (scale_sample (\<lambda>v. (v + 1) / 2)) a'"
    by (auto simp: normalize_batch_def split: if_splits sum.splits)
  from collect_map_Inr [OF c] have len: "length a' = length a"
    and each: "\<And>i. i < length a \<Longrightarrow> divide_sample (a ! i) = Inr (a' ! i)" by auto
  from assms(2) b obtain t where t: "t \<in> set a'"
    and v: "v \<in> set (flatten_sample (scale_sample (\<lambda>v. (v + 1) / 2) t))"
    by (auto simp: values_of_def)
  from t obtain i where i: "i < length a'" and ti: "t = a' ! i"
    by (auto simp: in_set_conv_nth)
  let ?s = "a ! i"
  from i len have sa: "?s \<in> set a" by simp
  from each [of i] i len ti have ds: "divide_sample ?s = Inr t" by simp
  then obtain d where d: "denominator ?s = Inr d" and td: "t = scale_sample (\<lambda>v. v / d) ?s"
    by (auto simp: divide_sample_def split: sum.splits)
  from v td obtain u where "u \<in> set (flatten_sample ?s)" and "v = (u / d + 1) / 2"
    by (auto simp: flatten_scale_sample)
  with sa d show ?thesis by blast
qed

text \<open>
  C9. Whatever batch \<^verbatim>\<open>prepare_batch_for_plotting\<close> is given (one with samples, each
  with elements: the all-zero attribution too), the call succeeds, the divisor of every
  sample (its largest absolute value plus \<open>1e-6\<close>) is strictly positive, and every value
  handed to the grid and the colour map lies in \<open>[0, 1]\<close>.
\<close>

theorem prepare_batch_for_plotting_unit_interval:
  assumes "a \<noteq> []" and "\<forall>s \<in> set a. flatten_sample s \<noteq> []"
  shows "\<exists>a' b. prepare_batch_for_plotting render a = Inr (a', render b)
           \<and> normalize_batch a = Inr (a', b)
           \<and> (\<forall>s \<in> set a. \<exists>d. denominator s = Inr d \<and> 0 < d)
           \<and> (\<forall>v \<in> set (values_of b). 0 \<le> v \<and> v \<le> 1)"
proof -
  from normalize_total [OF assms] obtain a' b where n: "normalize_batch a = Inr (a', b)" by blast
  have p: "prepare_batch_for_plotting render a = Inr (a', render b)"
    using n by (simp add: prepare_batch_for_plotting_def)
  have dens: "\<forall>s \<in> set a. \<exists>d. denominator s = Inr d \<and> 0 < d"
  proof
    fix s assume "s \<in> set a"
    with assms(2) have "flatten_sample s \<noteq> []" by simp
    then obtain d where "denominator s = Inr d" using divide_sample_total by blast
    then show "\<exists>d. denominator s = Inr d \<and> 0 < d" using denominator_pos by blast
  qed
  have vals: "\<forall>v \<in> set (values_of b). 0 \<le> v \<and> v \<le> 1"
  proof
    fix v assume "v \<in> set (values_of b)"
    from normalize_values [OF n this] obtain s d u
      where "denominator s = Inr d" and "u \<in> set (flatten_sample s)" and v: "v = (u / d + 1) / 2"
      by blast
    then have "\<bar>u\<bar> < d" using denominator_bounds by blast
    from unit_interval [OF this] v show "0 \<le> v \<and> v \<le> 1" by simp
  qed
  from p n dens vals show ?thesis by blast
qed

theorem prepare_batch_for_plotting_unit_interval_witness:
  "\<exists>a' b. prepare_batch_for_plotting id [[[[0, 0]]], [[[3, - 4]]]] = Inr (a', id b)
      \<and> normalize_batch [[[[0, 0]]], [[[3, - 4]]]] = Inr (a', b)
      \<and> (\<forall>s \<in> set [[[[0, 0]]], [[[3, - 4 :: real]]]]. \<exists>d. denominator s = Inr d \<and> 0 < d)
      \<and> (\<forall>v \<in> set (values_of b). 0 \<le> v \<and> v \<le> 1)"
  using prepare_batch_for_plotting_unit_interval [of "[[[[0, 0]]], [[[3, - 4]]]]" id]
  by (simp add: flatten_sample_def)

section \<open>The target neuron\<close>

lemma row_max_Inr: "xs \<noteq> [] \<Longrightarrow> \<exists>m. row_max xs = Inr m"
  by (cases xs) simp_all

lemma row_max_attained: "row_max xs = Inr m \<Longrightarrow> m \<in> set xs"
proof -
  have "fold max ys y \<in> set (y # ys)" for y :: real and ys
  proof (induction ys arbitrary: y)
    case Nil
    then show ?case by simp
  next
    case (Cons z zs)
    have "fold max zs (max z y) \<in> set (max z y # zs)" by (rule Cons.IH)
    moreover have "max z y = z \<or> max z y = y" by (auto simp: max_def)
    ultimately show ?case by auto
  qed
  moreover assume "row_max xs = Inr m"
  ultimately show ?thesis by (cases xs) auto
qed


lemma argmax_upper: "j < length r \<Longrightarrow> r ! j \<le> r ! argmax r"
proof (induction r arbitrary: j rule: argmax.induct)
  case 1
  then show ?case by simp
next
  case (2 x xs)
  show ?case
  proof (cases xs)
    case Nil
    with 2 show ?thesis by simp
  next
    case (Cons a as)
    then obtain m where m: "row_max xs = Inr m" by auto
    show ?thesis
    proof (cases "m \<le> x")
      case True
      show ?thesis
      proof (cases j)
        case 0
        with True m show ?thesis by simp
      next
        case (Suc k)
        with "2.prems" have "xs ! k \<in> set xs" by simp
        with m have "xs ! k \<le> m" by (rule row_max_upper)
        with True m Suc show ?thesis by simp
      qed
    next
      case False
      from row_max_attained [OF m] obtain k where k: "k < length xs" "xs ! k = m"
        by (auto simp: in_set_conv_nth)
      from "2.IH" [OF m False k(1)] k(2) have big: "m \<le> xs ! argmax xs" by simp
      show ?thesis
      proof (cases j)
        case 0
        with False m big show ?thesis by simp
      next
        case (Suc i)
        with "2.prems" have "i < length xs" by simp
        from "2.IH" [OF m False this] m False Suc show ?thesis by simp
      qed
    qed
  qed
qed

lemma argmax_first: "j < argmax r \<Longrightarrow> r ! j < r ! argmax r"
proof (induction r arbitrary: j rule: argmax.induct)
  case 1
  then show ?case by simp
next
  case (2 x xs)
  show ?case
  proof (cases "row_max xs")
    case (Inl e)
    with "2.prems" show ?thesis by simp
  next
    case (Inr m)
    show ?thesis
    proof (cases "m \<le> x")
      case True
      with Inr "2.prems" show ?thesis by simp
    next
      case False
      from row_max_attained [OF Inr] obtain k where k: "k < length xs" "xs ! k = m"
        by (auto simp: in_set_conv_nth)
      from argmax_upper [OF k(1)] k(2) have big: "m \<le> xs ! argmax xs" by simp
      show ?thesis
      proof (cases j)
        case 0
        with False Inr big show ?thesis by simp
      next
        case (Suc i)
        with "2.prems" Inr False have "i < argmax xs" by simp
        from "2.IH" [OF Inr False this] Inr False Suc show ?thesis by simp
      qed
    qed
  qed
qed






section \<open>Shape and independence of an attribution run\<close>

lemma map_map2_same:
  assumes "map g a = map g b" and "\<And>u v. g u = g v \<Longrightarrow> g (f u v) = g u"
  shows "map g (map2 f a b) = map g a"
  using assms(1)
proof (induction a arbitrary: b)
  case Nil
  then show ?case by simp
next
  case (Cons u a)
  then obtain v b' where b: "b = v # b'" by (cases b) auto
  with Cons.prems have "g u = g v" and "map g a = map g b'" by simp_all
  with Cons.IH [of b'] assms(2) b show ?case by simp
qed

lemma shape_of_times_input:
  assumes "shape_of a = shape_of x"
  shows "shape_of (times_input x a) = shape_of x"
proof -
  have 1: "length (map2 (*) u v) = length u" if "length u = length v" for u v :: "real list"
    using that by simp
  have 2: "map length (map2 (map2 (*)) u v) = map length u"
    if "map length u = map length v" for u v :: "real list list"
    using that 1 by (rule map_map2_same)
  have 3: "map (map length) (map2 (map2 (map2 (*))) u v) = map (map length) u"
    if "map (map length) u = map (map length) v" for u v :: "real list list list"
    using that 2 by (rule map_map2_same)
  have "map (map (map length)) (map2 (map2 (map2 (map2 (*)))) a x) = map (map (map length)) a"
    using assms [unfolded shape_of_def] 3 by (rule map_map2_same)
  with assms show ?thesis by (simp add: shape_of_def times_input_def)
qed

lemma backward_fresh_shape:
  assumes "backward m r p sd (x\<lparr>x_grad := None\<rparr>) = Inr g"
  shows "input_gradient m r p (x_data x) sd = Inr g \<and> shape_of g = shape_of (x_data x)"
  using assms by (auto simp: backward_def accumulate_grad_def split: sum.splits if_splits)

lemma run_and_plot_rule_Inr:
  assumes "run_and_plot_rule m render args x = (Inr out, x')"
  shows "\<exists>y ps vs g. forward m (rule args) (pattern args) (x_data x) = Inr y
           \<and> select_argmax (length (x_data x)) y = Inr (ps, vs)
           \<and> backward m (rule args) (pattern args) (seed y ps) (x\<lparr>x_grad := None\<rparr>) = Inr g
           \<and> attribution out = (case postprocess args of None \<Rightarrow> g | Some f \<Rightarrow> f g)"
  using assms
  by (auto simp: run_and_plot_rule_def Let_def split: sum.splits prod.splits)

text \<open>
  C7. Whatever the rule and the pattern (pattern attribution and PatternNet on the same
  pattern included), an attribution run that succeeds yields an attribution of exactly the
  shape of the input batch: \<^verbatim>\<open>attr = x.grad\<close>, and the gradient of a leaf tensor has the
  shape of the tensor. That holds for the plain runs and for the run that multiplies
  the gradient with the input.
\<close>

theorem attribution_has_input_shape:
  assumes "run_and_plot_rule m render args x = (Inr out, x')"
    and "postprocess args = None \<or> postprocess args = Some (times_input (x_data x))"
  shows "shape_of (attribution out) = shape_of (x_data x)"
proof -
  from run_and_plot_rule_Inr [OF assms(1)] obtain y ps g
    where b: "backward m (rule args) (pattern args) (seed y ps) (x\<lparr>x_grad := None\<rparr>) = Inr g"
      and a: "attribution out = (case postprocess args of None \<Rightarrow> g | Some f \<Rightarrow> f g)"
    by blast
  from backward_fresh_shape [OF b] have g: "shape_of g = shape_of (x_data x)" by simp
  from assms(2) show ?thesis
  proof
    assume "postprocess args = None"
    with a g show ?thesis by simp
  next
    assume "postprocess args = Some (times_input (x_data x))"
    with a g show ?thesis by (simp add: shape_of_times_input)
  qed
qed

theorem attribution_has_input_shape_witness:
  "\<exists>out x'.
      run_and_plot_rule
        \<lparr>forward = (\<lambda>r p x. Inr [[1, 3, 2]]), input_gradient = (\<lambda>r p x sd. Inr [[[[1, - 1]]]])\<rparr>
        (\<lambda>c b. b)
        \<lparr>rule = ''patternnet'', title = None, postprocess = None, pattern = Some (),
          cmap = ''gray''\<rparr>
        \<lparr>x_data = [[[[5, 7]]]], x_grad = Some [[[[9, 9]]]]\<rparr> = (Inr out, x')
    \<and> attribution out = [[[[1, - 1]]]]
    \<and> shape_of (attribution out) = shape_of [[[[5, 7]]]]"
proof -
  let ?m = "\<lparr>forward = (\<lambda>r p x. Inr [[1, 3, 2]]),
             input_gradient = (\<lambda>r p x sd. Inr [[[[1, - 1]]]])\<rparr> :: unit model"
  let ?args = "\<lparr>rule = ''patternnet'', title = None, postprocess = None, pattern = Some (),
                cmap = ''gray''\<rparr>"
  let ?x = "\<lparr>x_data = [[[[5, 7]]]], x_grad = Some [[[[9, 9]]]]\<rparr>"
  let ?out = "\<lparr>attribution = [[[[1, - 1]]]],
               picture = [[[[2000001 / 2000002, 1 / 2000002 :: real]]]], caption = ''patternnet''\<rparr>"
  let ?x' = "\<lparr>x_data = [[[[5, 7]]]],
              x_grad = Some [[[[1000000 / 1000001, - (1000000 / 1000001)]]]]\<rparr>"
  have run: "run_and_plot_rule ?m (\<lambda>c b. b) ?args ?x = (Inr ?out, ?x')"
    by (simp add: run_and_plot_rule_def select_argmax_def max_indices_def index_pairs_def
          read_at_def backward_def accumulate_grad_def shape_of_def
          prepare_batch_for_plotting_def normalize_batch_def divide_sample_def
          denominator_def flatten_sample_def scale_sample_def seed_def)
  have post: "postprocess ?args = None \<or> postprocess ?args = Some (times_input (x_data ?x))"
    by simp
  from attribution_has_input_shape [OF run post]
  have "shape_of (attribution ?out) = shape_of [[[[5, 7]]]]" by simp
  with run show ?thesis by simp
qed

lemma run_and_plot_rule_data_only:
  assumes "x_data x = x_data x'"
  shows "run_and_plot_rule m render args x = run_and_plot_rule m render args x'"
proof -
  from assms have "x\<lparr>x_grad := None\<rparr> = x'\<lparr>x_grad := None\<rparr>"
    by (cases x, cases x') simp
  then show ?thesis unfolding run_and_plot_rule_def by (simp only:)
qed

lemma run_and_plot_rule_keeps_data:
  "x_data (snd (run_and_plot_rule m render args x)) = x_data x"
  by (auto simp: run_and_plot_rule_def Let_def split: sum.splits prod.splits option.splits)

lemma run_rules_keeps_data: "x_data (snd (run_rules m render earlier x)) = x_data x"
proof (induction earlier arbitrary: x)
  case Nil
  then show ?case by simp
next
  case (Cons a earlier)
  have k: "x_data (snd (run_and_plot_rule m render a x)) = x_data x"
    by (rule run_and_plot_rule_keeps_data)
  show ?case
  proof (cases "run_and_plot_rule m render a x")
    case (Pair r x1)
    with k have x1: "x_data x1 = x_data x" by simp
    show ?thesis
    proof (cases r)
      case (Inl e)
      with Pair x1 show ?thesis by simp
    next
      case (Inr out)
      from Cons.IH [of x1] x1 have "x_data (snd (run_rules m render earlier x1)) = x_data x" by simp
      with Pair Inr show ?thesis by (auto split: prod.splits sum.splits)
    qed
  qed
qed

text \<open>
  Without the reset the gradient of a run would be added to what an earlier run left in
  \<^verbatim>\<open>x.grad\<close>.
\<close>

lemma accumulate_grad_adds:
  "shape_of g = shape_of (x_data x) \<Longrightarrow> x_grad x = Some old \<Longrightarrow>
     accumulate_grad x g = Inr (add_batch old g)"
  by (simp add: accumulate_grad_def)

text \<open>
  C10. Every run first sets \<^verbatim>\<open>x.grad\<close> to \<^verbatim>\<open>None\<close>. Its outcome (the attribution, the
  picture, an error) and the input tensor it leaves are therefore the same after any
  sequence of earlier runs on the same input tensor as on a tensor with no gradient, and
  the same whatever \<^verbatim>\<open>x.grad\<close> held before.
\<close>

theorem attribution_independent_of_earlier_runs:
  "run_and_plot_rule m render args (snd (run_rules m render earlier x))
     = run_and_plot_rule m render args (x\<lparr>x_grad := None\<rparr>)
   \<and> run_and_plot_rule m render args x = run_and_plot_rule m render args (x\<lparr>x_grad := None\<rparr>)"
proof -
  have "x_data (snd (run_rules m render earlier x)) = x_data (x\<lparr>x_grad := None\<rparr>)"
    by (simp add: run_rules_keeps_data)
  moreover have "x_data x = x_data (x\<lparr>x_grad := None\<rparr>)" by simp
  ultimately show ?thesis by (blast intro: run_and_plot_rule_data_only)
qed

section \<open>The pattern files\<close>

lemma patterns_for_existing:
  "files w path = Some c \<Longrightarrow> patterns_for path name fitter model loader w = (load_patterns path w, w)"
  by (simp add: patterns_for_def)

lemma patterns_for_missing:
  "files w path = None \<Longrightarrow> fitter model loader = Inr p \<Longrightarrow>
     patterns_for path name fitter model loader w
       = (Inr p, \<lparr>files = (files w)(path \<mapsto> Pickled p), fit_calls = fit_calls w @ [(name, model)]\<rparr>)"
  by (simp add: patterns_for_def store_patterns_def Let_def)

text \<open>
  C2. Whether the patterns are fitted or reused depends on the existence of the file and on
  nothing else. When the file exists, the result is what loading it gives, no fitter is
  called, and the model, the fitter and the training data play no part. So after a run that
  fitted and stored the patterns of one model, a run with any other model (a retrained
  one) gets the stored patterns of the first.
\<close>

theorem patterns_reused_by_file_existence:
  "(files w path = Some c \<longrightarrow>
      patterns_for path name fitter model loader w = (load_patterns path w, w)
      \<and> patterns_for path name fitter model loader w = patterns_for path name' fitter' model' loader' w)
   \<and> (files w path = None \<and> fitter model loader = Inr p \<longrightarrow>
        fit_calls (snd (patterns_for path name fitter model loader w)) = fit_calls w @ [(name, model)]
      \<and> patterns_for path name fitter' model' loader' (snd (patterns_for path name fitter model loader w))
          = (Inr p, snd (patterns_for path name fitter model loader w)))"
proof (intro conjI impI)
  assume c: "files w path = Some c"
  show "patterns_for path name fitter model loader w = (load_patterns path w, w)"
    using c by (rule patterns_for_existing)
  show "patterns_for path name fitter model loader w = patterns_for path name' fitter' model' loader' w"
    using c by (simp add: patterns_for_existing)
next
  assume a: "files w path = None \<and> fitter model loader = Inr p"
  let ?w = "\<lparr>files = (files w)(path \<mapsto> Pickled p), fit_calls = fit_calls w @ [(name, model)]\<rparr>"
  from a have r: "patterns_for path name fitter model loader w = (Inr p, ?w)"
    by (simp add: patterns_for_missing)
  show "fit_calls (snd (patterns_for path name fitter model loader w)) = fit_calls w @ [(name, model)]"
    using r by simp
  have "files ?w path = Some (Pickled p)" by simp
  then have "patterns_for path name fitter' model' loader' ?w = (load_patterns path ?w, ?w)"
    by (rule patterns_for_existing)
  then show "patterns_for path name fitter' model' loader' (snd (patterns_for path name fitter model loader w))
      = (Inr p, snd (patterns_for path name fitter model loader w))"
    using r by (simp add: load_patterns_def)
qed

theorem patterns_reused_by_file_existence_witness:
  "patterns_for ''pattern_all.pkl'' ''fit_patternnet'' (\<lambda>m l. Inr (m + l)) (2 :: nat) (10 :: nat)
       \<lparr>files = [''pattern_all.pkl'' \<mapsto> Pickled 11], fit_calls = []\<rparr>
     = (Inr 11, \<lparr>files = [''pattern_all.pkl'' \<mapsto> Pickled 11], fit_calls = []\<rparr>)
   \<and> fst (patterns_for ''pattern_all.pkl'' ''fit_patternnet'' (\<lambda>m l. Inr (m + l)) (2 :: nat) (10 :: nat)
        (snd (patterns_for ''pattern_all.pkl'' ''fit_patternnet'' (\<lambda>m l. Inr (m + l)) 1 10
           \<lparr>files = Map.empty, fit_calls = []\<rparr>))) = Inr 11
   \<and> fit_calls (snd (patterns_for ''pattern_all.pkl'' ''fit_patternnet'' (\<lambda>m l. Inr (m + l)) (2 :: nat) (10 :: nat)
        (snd (patterns_for ''pattern_all.pkl'' ''fit_patternnet'' (\<lambda>m l. Inr (m + l)) 1 10
           \<lparr>files = Map.empty, fit_calls = []\<rparr>)))) = [(''fit_patternnet'', 1)]"
proof -
  let ?fitter = "\<lambda>(m :: nat) (l :: nat). (Inr (m + l) :: error + nat)"
  let ?w1 = "\<lparr>files = [''pattern_all.pkl'' \<mapsto> Pickled (11 :: nat)], fit_calls = ([] :: (string \<times> nat) list)\<rparr>"
  let ?w0 = "\<lparr>files = (Map.empty :: string \<Rightarrow> nat file_content option), fit_calls = ([] :: (string \<times> nat) list)\<rparr>"
  have a: "files ?w1 ''pattern_all.pkl'' = Some (Pickled 11)" by simp
  have b: "files ?w0 ''pattern_all.pkl'' = None \<and> ?fitter 1 10 = Inr 11" by simp
  from patterns_reused_by_file_existence
         [of ?w1 "''pattern_all.pkl''" "Pickled 11" "''fit_patternnet''" ?fitter 2 10
             "''fit_patternnet''" ?fitter 2 10 11] a
  have 1: "patterns_for ''pattern_all.pkl'' ''fit_patternnet'' ?fitter 2 10 ?w1
             = (load_patterns ''pattern_all.pkl'' ?w1, ?w1)"
    by blast
  from patterns_reused_by_file_existence
         [of ?w0 "''pattern_all.pkl''" "Pickled 11" "''fit_patternnet''" ?fitter 1 10
             "''fit_patternnet''" ?fitter 2 10 11] b
  have 2: "fit_calls (snd (patterns_for ''pattern_all.pkl'' ''fit_patternnet'' ?fitter 1 10 ?w0))
             = fit_calls ?w0 @ [(''fit_patternnet'', 1)]"
    and 3: "patterns_for ''pattern_all.pkl'' ''fit_patternnet'' ?fitter 2 10
              (snd (patterns_for ''pattern_all.pkl'' ''fit_patternnet'' ?fitter 1 10 ?w0))
             = (Inr 11, snd (patterns_for ''pattern_all.pkl'' ''fit_patternnet'' ?fitter 1 10 ?w0))"
    by blast+
  from 1 have "patterns_for ''pattern_all.pkl'' ''fit_patternnet'' ?fitter 2 10 ?w1 = (Inr 11, ?w1)"
    by (simp add: load_patterns_def)
  with 2 3 show ?thesis by simp
qed

end
